theory Spec2Isabelle
  imports Main
begin

section \<open>The relay server of chat_server_select.c\<close>

text \<open>
  The server is a single thread around \<open>select()\<close>. Its whole mutable state is the global
  array \<open>client_socket[MAX_CLIENTS]\<close> (0 marks a free slot), the listening descriptor,
  \<open>max_fd\<close> and the loop flag \<open>running\<close>. Every system call the server makes on a
  descriptor is recorded as an \<open>event\<close>, in program order; what the operating system
  answers to each call is a parameter of the model (the record \<open>env\<close>), so that every
  theorem holds for every answer the system may give.

  Diagnostic \<open>printf\<close> output is left out of the trace, except for the messages the
  control input produces; \<open>perror\<close> calls are kept as \<open>Log\<close> events.
\<close>

subsection \<open>Constants and data\<close>

definition MAX_CLIENTS :: nat where
  "MAX_CLIENTS = 10"

definition BUF_SIZE :: nat where
  "BUF_SIZE = 256"

definition STDIN_FILENO :: int where
  "STDIN_FILENO = 0"

text \<open>The value of \<open>EINTR\<close> in \<open>errno.h\<close> on Linux.\<close>

definition EINTR :: int where
  "EINTR = 4"


definition NUL :: char where
  "NUL = CHR 0x00"

datatype log_line =
    QuitReceived        \<comment> \<open>printf: Server received 'quit' command. Shutting down...\<close>
  | CommandIgnored      \<comment> \<open>printf: Command ignored.\<close>
  | SelectError         \<comment> \<open>perror: select error\<close>
  | AcceptError         \<comment> \<open>perror: Couldn't accept\<close>
  | SendError           \<comment> \<open>perror: send\<close>

datatype event =
    Select                \<comment> \<open>select(max_fd + 1, &readfds, NULL, NULL, NULL)\<close>
  | Fgets                 \<comment> \<open>fgets(cmd_buffer, 16, stdin)\<close>
  | Accept int            \<comment> \<open>accept(listener_sfd, ...)\<close>
  | Recv int              \<comment> \<open>recv(fd, buffer_test, BUF_SIZE, 0)\<close>
  | Send int string       \<comment> \<open>send(fd, buf, len, 0), with the len bytes handed over\<close>
  | Close int             \<comment> \<open>close(fd)\<close>
  | Log log_line
  | Exit int              \<comment> \<open>exit(code)\<close>

record server =
  client_socket :: "int list"
  listener_sfd :: int
  max_fd :: int
  running :: int

text \<open>
  The answers of the operating system during one iteration of the loop. Each slot is visited
  once by the receive loop, and each pair of a sending and a receiving slot once by a
  broadcast, so indexing the answers by slot loses no generality.
\<close>

record env =
  select_res :: int                        \<comment> \<open>the value select() returns\<close>
  select_errno :: int                      \<comment> \<open>errno after a failed select()\<close>
  select_ready :: "int set"                \<comment> \<open>readfds after a successful select()\<close>
  stdin_pending :: string                  \<comment> \<open>the bytes waiting on standard input\<close>
  accept_res :: int                        \<comment> \<open>the value accept() returns\<close>
  recv_res :: "nat \<Rightarrow> int \<times> string"         \<comment> \<open>slot i: the value recv() returns and the buffer after it\<close>
  ack_res :: "nat \<Rightarrow> int"                  \<comment> \<open>slot i: the value of the send() of the acknowledgement\<close>
  send_res :: "nat \<Rightarrow> nat \<Rightarrow> int"           \<comment> \<open>sender slot i, recipient slot j: the value send() returns\<close>

subsection \<open>broadcast_message\<close>

text \<open>
  The loop of \<open>broadcast_message\<close> from index \<open>i\<close> on. \<open>res j\<close> is what \<open>send\<close> returns
  for the recipient in slot \<open>j\<close>. A result of \<open>-1\<close> closes the recipient, frees its slot and
  returns from the function.
\<close>

function bcast_loop :: "(nat \<Rightarrow> int) \<Rightarrow> int \<Rightarrow> string \<Rightarrow> nat \<Rightarrow> nat \<Rightarrow> server \<Rightarrow> server \<times> event list" where
  "bcast_loop res sender_fd message len i s =
     (if i < MAX_CLIENTS then
        (let sfd = client_socket s ! i in
         if sfd \<le> 0 then bcast_loop res sender_fd message len (Suc i) s
         else if sfd = sender_fd then bcast_loop res sender_fd message len (Suc i) s
         else
           (let send_bytes = res i in
            if send_bytes = - 1 then
              (s\<lparr>client_socket := (client_socket s)[i := 0]\<rparr>,
               [Send sfd (take len message), Log SendError, Close sfd])
            else
              (case bcast_loop res sender_fd message len (Suc i) s of
                 (s', ev) \<Rightarrow> (s', Send sfd (take len message) # ev))))
      else (s, []))"
  by pat_completeness auto
termination
  by (relation "measure (\<lambda>(res, sender_fd, message, len, i, s). MAX_CLIENTS - i)") auto

declare bcast_loop.simps [simp del]

definition broadcast_message :: "(nat \<Rightarrow> int) \<Rightarrow> int \<Rightarrow> string \<Rightarrow> nat \<Rightarrow> server \<Rightarrow> server \<times> event list" where
  "broadcast_message res sender_fd message len s = bcast_loop res sender_fd message len 0 s"

text \<open>The descriptors a trace sends to, with the bytes sent, in order.\<close>

fun sends :: "event list \<Rightarrow> (int \<times> string) list" where
  "sends [] = []"
| "sends (Send fd m # ev) = (fd, m) # sends ev"
| "sends (_ # ev) = sends ev"

subsection \<open>The control input\<close>

text \<open>
  \<open>fgets(buf, size, stdin)\<close> of the C library: it stores at most \<open>size - 1\<close> bytes of the
  input, stops after a newline, and returns \<open>NULL\<close> (here \<open>None\<close>) when the input is at its
  end and no byte was read. \<open>read_line n\<close> is the sequence of bytes stored.
\<close>

fun read_line :: "nat \<Rightarrow> string \<Rightarrow> string" where
  "read_line 0 inp = []"
| "read_line (Suc n) [] = []"
| "read_line (Suc n) (c # inp) = (if c = CHR 0x0A then [c] else c # read_line n inp)"

definition fgets :: "nat \<Rightarrow> string \<Rightarrow> string option" where
  "fgets n inp = (if inp = [] then None else Some (read_line (n - 1) inp))"

text \<open>The C string held in a buffer: its bytes before the first NUL.\<close>

definition cstr :: "string \<Rightarrow> string" where
  "cstr buf = takeWhile (\<lambda>c. c \<noteq> NUL) buf"

text \<open>
  \<open>strncmp(s1, s2, n)\<close> of the C library on two C strings: the first \<open>n\<close> bytes are compared
  as unsigned bytes, and the end of a string counts as the byte 0.
\<close>

fun strncmp :: "string \<Rightarrow> string \<Rightarrow> nat \<Rightarrow> int" where
  "strncmp s1 s2 0 = 0"
| "strncmp [] [] (Suc n) = 0"
| "strncmp [] (c2 # s2) (Suc n) = - int (of_char c2)"
| "strncmp (c1 # s1) [] (Suc n) = int (of_char c1)"
| "strncmp (c1 # s1) (c2 # s2) (Suc n) =
     (if c1 = c2 then strncmp s1 s2 n else int (of_char c1) - int (of_char c2))"

text \<open>
  Step C.1 of the loop body: the command read from standard input. The branch that recognises
  the command only prints; the call of \<open>exit\<close> there is commented out in the source, and
  \<open>running\<close> is not assigned.
\<close>

definition check_stdin :: "env \<Rightarrow> int set \<Rightarrow> server \<Rightarrow> server \<times> event list" where
  "check_stdin e readfds s =
     (if STDIN_FILENO \<in> readfds then
        (case fgets 16 (stdin_pending e) of
           None \<Rightarrow> (s, [Fgets])
         | Some cmd_buffer \<Rightarrow>
             if strncmp (cstr cmd_buffer) ''quit'' 4 = 0 then (s, [Fgets, Log QuitReceived])
             else (s, [Fgets, Log CommandIgnored]))
      else (s, []))"

subsection \<open>Accepting a connection\<close>

text \<open>
  The loop that stores the accepted descriptor \<open>afd\<close> in the first slot holding 0, from
  index \<open>i\<close> on. When no slot holds 0 the loop ends and nothing is done with \<open>afd\<close>.
\<close>

function assign_slot :: "int \<Rightarrow> nat \<Rightarrow> server \<Rightarrow> server" where
  "assign_slot afd i s =
     (if i < MAX_CLIENTS then
        (let client_fd = client_socket s ! i in
         if client_fd = 0 then
           (let s' = s\<lparr>client_socket := (client_socket s)[i := afd]\<rparr> in
            if client_socket s' ! i > max_fd s' then s'\<lparr>max_fd := client_socket s' ! i\<rparr> else s')
         else assign_slot afd (Suc i) s)
      else s)"
  by pat_completeness auto
termination
  by (relation "measure (\<lambda>(afd, i, s). MAX_CLIENTS - i)") auto

declare assign_slot.simps [simp del]

text \<open>
  The listener branch of the loop body. The third component tells whether the \<open>continue\<close>
  after a failed \<open>accept\<close> was taken, which skips the receive loop of this iteration.
\<close>

definition check_listener :: "env \<Rightarrow> int set \<Rightarrow> server \<Rightarrow> server \<times> event list \<times> bool" where
  "check_listener e readfds s =
     (if listener_sfd s \<in> readfds then
        (let afd = accept_res e in
         if afd = - 1 then (s, [Accept (listener_sfd s), Log AcceptError], True)
         else (assign_slot afd 0 s, [Accept (listener_sfd s)], False))
      else (s, [], False))"

subsection \<open>Receiving from a client\<close>

text \<open>
  The C array \<open>buffer_test\<close> has \<open>BUF_SIZE\<close> elements, so a store at index \<open>k\<close> is inside
  the array exactly when \<open>k < BUF_SIZE\<close>.
\<close>

definition store_in_bounds :: "nat \<Rightarrow> bool" where
  "store_in_bounds k = (k < BUF_SIZE)"

text \<open>
  The body of the receive loop for slot \<open>i\<close>. \<open>recv_res e i\<close> is the value \<open>recv\<close> returns
  and the contents of \<open>buffer_test\<close> after the call. The third component of the result tells
  whether the store of the terminating NUL fell outside \<open>buffer_test\<close>; the model then leaves
  the array as it is and goes on, as \<open>list_update\<close> does beyond the end of a list.
\<close>

definition recv_slot :: "env \<Rightarrow> int set \<Rightarrow> nat \<Rightarrow> server \<Rightarrow> server \<times> event list \<times> bool" where
  "recv_slot e readfds i s =
     (let avail_cfd = client_socket s ! i in
      if avail_cfd > 0 \<and> avail_cfd \<in> readfds then
        (case recv_res e i of
           (recv_bytes, buffer_test) \<Rightarrow>
             if recv_bytes \<le> 0 then
               (s\<lparr>client_socket := (client_socket s)[i := 0]\<rparr>,
                [Recv avail_cfd, Close avail_cfd], False)
             else
               (let buffer_test' = buffer_test[nat recv_bytes := NUL];
                    ack = ack_res e i
                in case broadcast_message (send_res e i) avail_cfd buffer_test' (nat recv_bytes) s of
                     (s', ev) \<Rightarrow>
                       (s', [Recv avail_cfd, Send avail_cfd (take 3 ''ACK'')] @ ev,
                        \<not> store_in_bounds (nat recv_bytes))))
      else (s, [], False))"

function recv_loop :: "env \<Rightarrow> int set \<Rightarrow> nat \<Rightarrow> server \<Rightarrow> server \<times> event list \<times> bool" where
  "recv_loop e readfds i s =
     (if i < MAX_CLIENTS then
        (case recv_slot e readfds i s of
           (s', ev, oob) \<Rightarrow>
             (case recv_loop e readfds (Suc i) s' of
                (s'', ev', oob') \<Rightarrow> (s'', ev @ ev', oob \<or> oob')))
      else (s, [], False))"
  by pat_completeness auto
termination
  by (relation "measure (\<lambda>(e, readfds, i, s). MAX_CLIENTS - i)") auto

declare recv_loop.simps [simp del]

subsection \<open>One iteration of the loop in main\<close>

text \<open>
  Step A: the loop that rebuilds \<open>readfds\<close> from the occupied slots and raises \<open>max_fd\<close>,
  from index \<open>i\<close> on.
\<close>

function populate :: "nat \<Rightarrow> int list \<Rightarrow> int set \<times> int \<Rightarrow> int set \<times> int" where
  "populate i cs (readfds, mx) =
     (if i < MAX_CLIENTS then
        populate (Suc i) cs
          ((if cs ! i > 0 then insert (cs ! i) readfds else readfds),
           (if cs ! i > mx then cs ! i else mx))
      else (readfds, mx))"
  by pat_completeness auto
termination
  by (relation "measure (\<lambda>(i, cs, p). MAX_CLIENTS - i)") auto

declare populate.simps [simp del]

text \<open>
  One pass through the body of \<open>while(running)\<close>. A failed \<open>select\<close> leaves \<open>readfds\<close> as it
  was built (POSIX: on failure the descriptor sets are not modified); a successful one
  replaces it by the ready descriptors. Only a failure with \<open>errno\<close> other than \<open>EINTR\<close> takes
  the \<open>continue\<close>; every other outcome goes on to the three dispatch steps.
\<close>

definition loop_body :: "env \<Rightarrow> server \<Rightarrow> server \<times> event list \<times> bool" where
  "loop_body e s =
     (case populate 0 (client_socket s) ({STDIN_FILENO, listener_sfd s}, max_fd s) of
        (readfds0, mx) \<Rightarrow>
          (let s1 = s\<lparr>max_fd := mx\<rparr>;
               activity = select_res e;
               readfds = (if activity < 0 then readfds0 else select_ready e)
           in if activity < 0 \<and> select_errno e \<noteq> EINTR then (s1, [Select, Log SelectError], False)
              else
                (case check_stdin e readfds s1 of
                   (s2, ev2) \<Rightarrow>
                     (case check_listener e readfds s2 of
                        (s3, ev3, skip) \<Rightarrow>
                          if skip then (s3, Select # ev2 @ ev3, False)
                          else
                            (case recv_loop e readfds 0 s3 of
                               (s4, ev4, oob) \<Rightarrow> (s4, Select # ev2 @ ev3 @ ev4, oob))))))"

subsection \<open>The readiness wait and signals\<close>





subsection \<open>Shutdown\<close>

text \<open>The loop of \<open>cleanup_and_exit\<close> over the client slots, from index \<open>i\<close> on.\<close>

function close_clients :: "nat \<Rightarrow> server \<Rightarrow> server \<times> event list" where
  "close_clients i s =
     (if i < MAX_CLIENTS then
        (let sd = client_socket s ! i in
         if sd > 0 then
           (case close_clients (Suc i) (s\<lparr>client_socket := (client_socket s)[i := 0]\<rparr>) of
              (s', ev) \<Rightarrow> (s', Close sd # ev))
         else close_clients (Suc i) s)
      else (s, []))"
  by pat_completeness auto
termination
  by (relation "measure (\<lambda>(i, s). MAX_CLIENTS - i)") auto

declare close_clients.simps [simp del]

definition cleanup_and_exit :: "server \<Rightarrow> server \<times> event list" where
  "cleanup_and_exit s =
     (case close_clients 0 s of
        (s', ev) \<Rightarrow>
          (s', (if listener_sfd s \<noteq> - 1 then [Close (listener_sfd s)] else []) @ ev @ [Exit 0]))"

subsection \<open>The loop of main\<close>

text \<open>
  The state of \<open>main\<close> when the loop is entered, for the descriptor \<open>setup_listener\<close> returned.
\<close>

definition init_server :: "int \<Rightarrow> server" where
  "init_server lfd =
     \<lparr>client_socket = replicate MAX_CLIENTS 0, listener_sfd = lfd, max_fd = lfd, running = 1\<rparr>"

text \<open>
  \<open>while(running)\<close> with fuel: \<open>envs k\<close> holds the answers of the system in iteration \<open>k\<close>.
  \<open>None\<close> means the loop is still running when the fuel is used up. When the loop ends, \<open>main\<close>
  closes the listener, clears the array and returns 0, which ends the process with code 0.
\<close>

fun main_loop :: "nat \<Rightarrow> (nat \<Rightarrow> env) \<Rightarrow> nat \<Rightarrow> server \<Rightarrow> (server \<times> event list) option" where
  "main_loop 0 envs k s =
     (if running s \<noteq> 0 then None
      else Some (s\<lparr>client_socket := replicate MAX_CLIENTS 0\<rparr>, [Close (listener_sfd s), Exit 0]))"
| "main_loop (Suc fuel) envs k s =
     (if running s \<noteq> 0 then
        (case loop_body (envs k) s of
           (s', ev, oob) \<Rightarrow>
             (case main_loop fuel envs (Suc k) s' of
                None \<Rightarrow> None
              | Some (s'', ev') \<Rightarrow> Some (s'', ev @ ev')))
      else Some (s\<lparr>client_socket := replicate MAX_CLIENTS 0\<rparr>, [Close (listener_sfd s), Exit 0]))"

subsection \<open>Scenarios\<close>

text \<open>
  Concrete states and answers of the system on which the theorems below are evaluated. The
  listener is descriptor 3; clients A, B, C are the descriptors 4, 5, 6.
\<close>

definition two_clients :: server where
  "two_clients =
     \<lparr>client_socket = [4, 5, 0, 0, 0, 0, 0, 0, 0, 0], listener_sfd = 3, max_fd = 5, running = 1\<rparr>"

definition three_clients :: server where
  "three_clients =
     \<lparr>client_socket = [4, 5, 6, 0, 0, 0, 0, 0, 0, 0], listener_sfd = 3, max_fd = 6, running = 1\<rparr>"

definition full_registry :: server where
  "full_registry =
     \<lparr>client_socket = [4, 5, 6, 7, 8, 9, 10, 11, 12, 13], listener_sfd = 3, max_fd = 13, running = 1\<rparr>"

text \<open>
  Nothing is ready, nothing is pending and every send succeeds in full; the scenarios below
  change single fields.
\<close>

definition idle :: env where
  "idle =
     \<lparr>select_res = 0, select_errno = 0, select_ready = {}, stdin_pending = [],
      accept_res = - 1, recv_res = (\<lambda>i. (0, [])), ack_res = (\<lambda>i. 3), send_res = (\<lambda>i j. 5)\<rparr>"

text \<open>The operator types \<open>quit\<close> and presses return; only standard input is ready.\<close>

definition quit_typed :: env where
  "quit_typed = idle\<lparr>select_res := 1, select_ready := {0}, stdin_pending := ''quit'' @ [CHR 0x0A]\<rparr>"

text \<open>The operator types \<open>quitter\<close> and presses return.\<close>

definition quitter_typed :: env where
  "quitter_typed = idle\<lparr>select_res := 1, select_ready := {0}, stdin_pending := ''quitter'' @ [CHR 0x0A]\<rparr>"

text \<open>A new connection, descriptor 14, is pending on the listener.\<close>

definition one_more_connection :: env where
  "one_more_connection = idle\<lparr>select_res := 1, select_ready := {3}, accept_res := 14\<rparr>"

text \<open>Client A sends \<open>hello\<close>.\<close>

definition hello_from_A :: env where
  "hello_from_A = idle\<lparr>select_res := 1, select_ready := {4}, recv_res := (\<lambda>i. (5, ''hello''))\<rparr>"

text \<open>Client A sends a message that fills the receive buffer: 256 bytes.\<close>

definition full_buffer_from_A :: env where
  "full_buffer_from_A =
     idle\<lparr>select_res := 1, select_ready := {4}, recv_res := (\<lambda>i. (256, replicate 256 (CHR ''a'')))\<rparr>"

text \<open>Client A has closed its connection: \<open>recv\<close> returns 0.\<close>

definition A_hangs_up :: env where
  "A_hangs_up = idle\<lparr>select_res := 1, select_ready := {4}, recv_res := (\<lambda>i. (0, []))\<rparr>"

text \<open>
  The answer \<open>EINTR\<close> of \<open>select\<close>, which is given only to a process that has a handler
  installed. The calls the loop body then makes are answered: the operator types \<open>hi\<close>, no
  connection can be accepted.
\<close>

definition select_interrupted :: env where
  "select_interrupted =
     idle\<lparr>select_res := - 1, select_errno := EINTR, stdin_pending := ''hi'' @ [CHR 0x0A]\<rparr>"



subsection \<open>Notions of the registry used in the statements\<close>

text \<open>The number of occupied slots, and the slots other than \<open>S\<close> that are occupied.\<close>

definition occupied_count :: "server \<Rightarrow> nat" where
  "occupied_count s = length (filter (\<lambda>fd. 0 < fd) (client_socket s))"

definition others :: "nat \<Rightarrow> server \<Rightarrow> nat list" where
  "others S s = filter (\<lambda>j. j \<noteq> S \<and> 0 < client_socket s ! j) [0..<MAX_CLIENTS]"

text \<open>
  No descriptor is held by two occupied slots. The system guarantees it: \<open>accept\<close> never
  returns a descriptor that is still open, and the server frees a slot in the same step in
  which it closes the descriptor.
\<close>

definition handles_distinct :: "server \<Rightarrow> bool" where
  "handles_distinct s = distinct (filter (\<lambda>fd. 0 < fd) (client_socket s))"

section \<open>Properties\<close>

subsection \<open>One step of the broadcast loop, by cases\<close>

lemma bcast_loop_done:
  "\<not> i < MAX_CLIENTS \<Longrightarrow> bcast_loop res sender_fd message len i s = (s, [])"
  by (subst bcast_loop.simps) simp

lemma bcast_loop_free:
  "i < MAX_CLIENTS \<Longrightarrow> client_socket s ! i \<le> 0 \<Longrightarrow>
   bcast_loop res sender_fd message len i s = bcast_loop res sender_fd message len (Suc i) s"
  by (subst bcast_loop.simps) (simp add: Let_def)

lemma bcast_loop_self:
  "i < MAX_CLIENTS \<Longrightarrow> client_socket s ! i = sender_fd \<Longrightarrow>
   bcast_loop res sender_fd message len i s = bcast_loop res sender_fd message len (Suc i) s"
  by (subst bcast_loop.simps) (simp add: Let_def)

text \<open>
  The first send that returns \<open>-1\<close> ends the broadcast: the slots after \<open>i\<close> are not looked
  at any more.
\<close>

lemma bcast_loop_fail:
  "i < MAX_CLIENTS \<Longrightarrow> 0 < client_socket s ! i \<Longrightarrow> client_socket s ! i \<noteq> sender_fd \<Longrightarrow>
   res i = - 1 \<Longrightarrow>
   bcast_loop res sender_fd message len i s =
     (s\<lparr>client_socket := (client_socket s)[i := 0]\<rparr>,
      [Send (client_socket s ! i) (take len message), Log SendError, Close (client_socket s ! i)])"
  by (subst bcast_loop.simps) (simp add: Let_def)

lemma bcast_loop_sent:
  "i < MAX_CLIENTS \<Longrightarrow> 0 < client_socket s ! i \<Longrightarrow> client_socket s ! i \<noteq> sender_fd \<Longrightarrow>
   res i \<noteq> - 1 \<Longrightarrow>
   bcast_loop res sender_fd message len i s =
     (fst (bcast_loop res sender_fd message len (Suc i) s),
      Send (client_socket s ! i) (take len message) #
        snd (bcast_loop res sender_fd message len (Suc i) s))"
  by (subst bcast_loop.simps) (simp add: Let_def split: prod.splits)

subsection \<open>No echo to the sender\<close>

lemma bcast_loop_skips_sender:
  "sender_fd \<notin> fst ` set (sends (snd (bcast_loop res sender_fd message len i s)))"
proof (induction res sender_fd message len i s rule: bcast_loop.induct)
  case (1 res sender_fd message len i s)
  show ?case
  proof (cases "i < MAX_CLIENTS")
    case False
    then show ?thesis by (simp add: bcast_loop_done)
  next
    case lt: True
    show ?thesis
    proof (cases "client_socket s ! i \<le> 0")
      case True
      with lt "1.IH"(1) show ?thesis by (simp add: bcast_loop_free)
    next
      case pos: False
      show ?thesis
      proof (cases "client_socket s ! i = sender_fd")
        case True
        with lt pos "1.IH"(2) show ?thesis by (simp add: bcast_loop_self)
      next
        case other: False
        show ?thesis
        proof (cases "res i = - 1")
          case True
          with lt pos other show ?thesis by (simp add: bcast_loop_fail)
        next
          case False
          with lt pos other "1.IH"(3) show ?thesis by (simp add: bcast_loop_sent)
        qed
      qed
    qed
  qed
qed

text \<open>
  C6. Whatever the registry holds and whatever the sends return, a broadcast for a message
  that came from the descriptor \<open>sender_fd\<close> never calls \<open>send\<close> on \<open>sender_fd\<close>: the
  descriptor of the sending slot is not among the recipients.
\<close>

theorem broadcast_never_sends_to_sender:
  "sender_fd \<notin> fst ` set (sends (snd (broadcast_message res sender_fd message len s)))"
  unfolding broadcast_message_def by (rule bcast_loop_skips_sender)

text \<open>With A, B, C connected, A's message goes to B and C and not to A.\<close>

theorem broadcast_never_sends_to_sender_witness:
  "4 \<notin> fst ` set (sends (snd (broadcast_message (\<lambda>j. 5) 4 ''hello'' 5 three_clients)))
   \<and> sends (snd (broadcast_message (\<lambda>j. 5) 4 ''hello'' 5 three_clients)) =
       [(5, ''hello''), (6, ''hello'')]"
proof -
  have "sends (snd (broadcast_message (\<lambda>j. 5) 4 ''hello'' 5 three_clients)) =
       [(5, ''hello''), (6, ''hello'')]"
    by code_simp
  then show ?thesis
    using broadcast_never_sends_to_sender [of 4 "\<lambda>j. 5" "''hello''" 5 three_clients] by simp
qed

subsection \<open>A failed send during a broadcast\<close>

text \<open>
  C2. Clients A, B, C are connected and A's message \<open>hello\<close> is broadcast. The send to B
  fails. B is closed and its slot freed, and the function returns: C, whose send would have
  succeeded, is never sent the message.
\<close>

theorem broadcast_stops_at_first_failed_send:
  "broadcast_message (\<lambda>j. if j = 1 then - 1 else 5) 4 ''hello'' 5 three_clients =
     (three_clients\<lparr>client_socket := [4, 0, 6, 0, 0, 0, 0, 0, 0, 0]\<rparr>,
      [Send 5 ''hello'', Log SendError, Close 5])
   \<and> 6 \<notin> fst ` set (sends (snd (broadcast_message (\<lambda>j. if j = 1 then - 1 else 5) 4 ''hello'' 5
                                   three_clients)))"
  by code_simp

subsection \<open>Broadcast without send failures\<close>

lemma bcast_loop_all_sent:
  "(\<And>j. i \<le> j \<Longrightarrow> j < MAX_CLIENTS \<Longrightarrow> res j \<noteq> - 1) \<Longrightarrow>
   bcast_loop res sender_fd message len i s =
     (s, map (\<lambda>j. Send (client_socket s ! j) (take len message))
           (filter (\<lambda>j. 0 < client_socket s ! j \<and> client_socket s ! j \<noteq> sender_fd)
              [i..<MAX_CLIENTS]))"
proof (induction res sender_fd message len i s rule: bcast_loop.induct)
  case (1 res sender_fd message len i s)
  show ?case
  proof (cases "i < MAX_CLIENTS")
    case False
    then show ?thesis by (simp add: bcast_loop_done)
  next
    case lt: True
    then have upt: "[i..<MAX_CLIENTS] = i # [Suc i..<MAX_CLIENTS]"
      by (rule upt_conv_Cons)
    have later: "\<And>j. Suc i \<le> j \<Longrightarrow> j < MAX_CLIENTS \<Longrightarrow> res j \<noteq> - 1"
      using "1.prems" by simp
    show ?thesis
    proof (cases "client_socket s ! i \<le> 0")
      case True
      with lt "1.IH"(1) later show ?thesis by (simp add: bcast_loop_free upt)
    next
      case pos: False
      show ?thesis
      proof (cases "client_socket s ! i = sender_fd")
        case True
        with lt pos "1.IH"(2) later show ?thesis by (simp add: bcast_loop_self upt)
      next
        case other: False
        have ok: "res i \<noteq> - 1" using "1.prems" lt by simp
        with lt pos other "1.IH"(3) later show ?thesis by (simp add: bcast_loop_sent upt)
      qed
    qed
  qed
qed

text \<open>Two positions of a list whose selected elements are distinct hold different values.\<close>

lemma distinct_filter_nth_eq:
  "distinct (filter P xs) \<Longrightarrow> j < length xs \<Longrightarrow> k < length xs \<Longrightarrow> P (xs ! j) \<Longrightarrow>
   xs ! j = xs ! k \<Longrightarrow> j = k"
proof (induction xs arbitrary: j k)
  case Nil
  then show ?case by simp
next
  case (Cons x xs)
  show ?case
  proof (cases j)
    case 0
    show ?thesis
    proof (cases k)
      case 0
      with \<open>j = 0\<close> show ?thesis by simp
    next
      case (Suc k')
      with 0 Cons.prems have "P x" "x = xs ! k'" "k' < length xs" by simp_all
      then have "x \<in> set (filter P xs)" by simp
      with Cons.prems(1) \<open>P x\<close> show ?thesis by simp
    qed
  next
    case (Suc j')
    show ?thesis
    proof (cases k)
      case 0
      with Suc Cons.prems have "P x" "x = xs ! j'" "j' < length xs" by simp_all
      then have "x \<in> set (filter P xs)" by simp
      with Cons.prems(1) \<open>P x\<close> show ?thesis by simp
    next
      case k: (Suc k')
      from Cons.prems(1) have "distinct (filter P xs)" by (simp split: if_splits)
      with Cons.IH [of j' k'] Cons.prems Suc k show ?thesis by simp
    qed
  qed
qed

lemma count_others:
  assumes "S < n" "Q S"
  shows "length (filter (\<lambda>j. j \<noteq> S \<and> Q j) [0..<n]) = length (filter Q [0..<n]) - 1"
proof -
  have a: "length (filter (\<lambda>j. j \<noteq> S \<and> Q j) [0..<n]) = card {j. j < n \<and> j \<noteq> S \<and> Q j}"
    by (simp add: length_filter_conv_card cong: conj_cong)
  have b: "length (filter Q [0..<n]) = card {j. j < n \<and> Q j}"
    by (simp add: length_filter_conv_card cong: conj_cong)
  have c: "{j. j < n \<and> j \<noteq> S \<and> Q j} = {j. j < n \<and> Q j} - {S}" by auto
  have d: "S \<in> {j. j < n \<and> Q j}" using assms by simp
  show ?thesis unfolding a b c using d by simp
qed

lemma occupied_by_index:
  "length (filter P xs) = length (filter (\<lambda>j. P (xs ! j)) [0..<length xs])"
proof -
  have "filter P (map ((!) xs) [0..<length xs]) =
        map ((!) xs) (filter (\<lambda>j. P (xs ! j)) [0..<length xs])"
    by (simp add: filter_map comp_def)
  then have "filter P xs = map ((!) xs) (filter (\<lambda>j. P (xs ! j)) [0..<length xs])"
    by (simp add: map_nth)
  then show ?thesis by (metis length_map)
qed

text \<open>
  With distinct descriptors, the slots a broadcast from slot \<open>S\<close> sends to, which the code
  selects by descriptor, are the occupied slots other than \<open>S\<close>.
\<close>

lemma others_by_handle:
  assumes len: "length (client_socket s) = MAX_CLIENTS"
    and S: "S < MAX_CLIENTS"
    and occ: "0 < client_socket s ! S"
    and dist: "handles_distinct s"
  shows "filter (\<lambda>j. 0 < client_socket s ! j \<and> client_socket s ! j \<noteq> client_socket s ! S)
           [0..<MAX_CLIENTS] = others S s"
  unfolding others_def
proof (rule filter_cong [OF refl])
  fix j assume "j \<in> set [0..<MAX_CLIENTS]"
  then have j: "j < length (client_socket s)" using len by simp
  have Sl: "S < length (client_socket s)" using len S by simp
  have "0 < client_socket s ! j \<Longrightarrow> client_socket s ! j = client_socket s ! S \<Longrightarrow> j = S"
    using distinct_filter_nth_eq [of "\<lambda>fd. 0 < fd" "client_socket s" j S] dist j Sl
    by (simp add: handles_distinct_def)
  then show "(0 < client_socket s ! j \<and> client_socket s ! j \<noteq> client_socket s ! S) =
             (j \<noteq> S \<and> 0 < client_socket s ! j)"
    using occ by auto
qed

lemma length_others:
  assumes len: "length (client_socket s) = MAX_CLIENTS"
    and S: "S < MAX_CLIENTS"
    and occ: "0 < client_socket s ! S"
  shows "length (others S s) = occupied_count s - 1"
proof -
  have "length (others S s) =
        length (filter (\<lambda>j. 0 < client_socket s ! j) [0..<MAX_CLIENTS]) - 1"
    unfolding others_def using S occ by (rule count_others)
  also have "length (filter (\<lambda>j. 0 < client_socket s ! j) [0..<MAX_CLIENTS]) = occupied_count s"
    unfolding occupied_count_def
    using occupied_by_index [of "\<lambda>fd. 0 < fd" "client_socket s"] len by simp
  finally show ?thesis .
qed

text \<open>What the receive step does with a message of positive length.\<close>

lemma recv_slot_positive:
  assumes "0 < client_socket s ! i" "client_socket s ! i \<in> readfds"
    and "recv_res e i = (L, buf)" "0 < L"
  shows "recv_slot e readfds i s =
     (fst (broadcast_message (send_res e i) (client_socket s ! i) (buf[nat L := NUL]) (nat L) s),
      Recv (client_socket s ! i) # Send (client_socket s ! i) ''ACK'' #
        snd (broadcast_message (send_res e i) (client_socket s ! i) (buf[nat L := NUL]) (nat L) s),
      \<not> store_in_bounds (nat L))"
  using assms by (simp add: recv_slot_def Let_def split: prod.splits)

text \<open>
  C5. Slot \<open>S\<close> is occupied and ready, \<open>recv\<close> on it returns the positive length \<open>L\<close> with
  the bytes \<open>buf\<close>, no descriptor is held twice, and no send of the broadcast returns \<open>-1\<close>.
  Then after the acknowledgement the server sends the bytes \<open>[0, L)\<close> of \<open>buf\<close>, once each and
  in slot order, to the occupied slots other than \<open>S\<close>, of which there are one fewer than
  occupied slots; no slot is released.
\<close>

theorem broadcast_reaches_every_other_client:
  assumes len: "length (client_socket s) = MAX_CLIENTS"
    and S: "S < MAX_CLIENTS"
    and occ: "0 < client_socket s ! S"
    and ready: "client_socket s ! S \<in> readfds"
    and dist: "handles_distinct s"
    and rcv: "recv_res e S = (L, buf)"
    and pos: "0 < L"
    and nofail: "\<forall>j<MAX_CLIENTS. send_res e S j \<noteq> - 1"
  shows "fst (recv_slot e readfds S s) = s
       \<and> fst (snd (recv_slot e readfds S s)) =
           Recv (client_socket s ! S) # Send (client_socket s ! S) ''ACK'' #
           map (\<lambda>j. Send (client_socket s ! j) (take (nat L) buf)) (others S s)
       \<and> length (others S s) = occupied_count s - 1"
proof -
  have b: "broadcast_message (send_res e S) (client_socket s ! S) (buf[nat L := NUL]) (nat L) s =
        (s, map (\<lambda>j. Send (client_socket s ! j) (take (nat L) buf)) (others S s))"
    unfolding broadcast_message_def
    using nofail
    by (subst bcast_loop_all_sent) (simp_all add: others_by_handle [OF len S occ dist])
  show ?thesis
    using recv_slot_positive [OF occ ready rcv pos] b length_others [OF len S occ] by simp
qed

text \<open>With A, B, C connected, \<open>hello\<close> from A is sent to B and then to C.\<close>

theorem broadcast_reaches_every_other_client_witness:
  "length (client_socket three_clients) = MAX_CLIENTS \<and> 0 < MAX_CLIENTS
   \<and> 0 < client_socket three_clients ! 0 \<and> client_socket three_clients ! 0 \<in> {4}
   \<and> handles_distinct three_clients \<and> recv_res hello_from_A 0 = (5, ''hello'')
   \<and> map (send_res hello_from_A 0) [0..<MAX_CLIENTS] = replicate MAX_CLIENTS 5
   \<and> fst (recv_slot hello_from_A {4} 0 three_clients) = three_clients
   \<and> fst (snd (recv_slot hello_from_A {4} 0 three_clients)) =
       [Recv 4, Send 4 ''ACK'', Send 5 ''hello'', Send 6 ''hello'']
   \<and> occupied_count three_clients = 3"
proof -
  have len: "length (client_socket three_clients) = MAX_CLIENTS" by code_simp
  have S: "0 < MAX_CLIENTS" by code_simp
  have occ: "0 < client_socket three_clients ! 0" by code_simp
  have ready: "client_socket three_clients ! 0 \<in> {4}" by code_simp
  have dist: "handles_distinct three_clients" by code_simp
  have rcv: "recv_res hello_from_A 0 = (5, ''hello'')" by code_simp
  have pos: "(0::int) < 5" by simp
  have nofail: "\<forall>j<MAX_CLIENTS. send_res hello_from_A 0 j \<noteq> - 1"
    by (simp add: hello_from_A_def idle_def)
  have oth: "others 0 three_clients = [1, 2]" by code_simp
  have cnt: "occupied_count three_clients = 3" by code_simp
  have cs: "client_socket three_clients = [4, 5, 6, 0, 0, 0, 0, 0, 0, 0]" by code_simp
  have all5: "map (send_res hello_from_A 0) [0..<MAX_CLIENTS] = replicate MAX_CLIENTS 5"
    by code_simp
  show ?thesis
    using broadcast_reaches_every_other_client [OF len S occ ready dist rcv pos nofail]
      len S occ ready dist rcv cnt all5
    by (simp add: oth cs)
qed

subsection \<open>A receive that returns zero or an error\<close>

text \<open>
  C7. Slot \<open>i\<close> is occupied and ready and \<open>recv\<close> on it returns zero or a negative value.
  Then the step closes that descriptor and nothing else, sets slot \<open>i\<close> to 0 and leaves every
  other slot, the listener, \<open>max_fd\<close> and \<open>running\<close> as they were; nothing is sent, so no
  broadcast takes place for the slot.
\<close>

theorem failed_receive_releases_only_that_slot:
  assumes len: "length (client_socket s) = MAX_CLIENTS"
    and i: "i < MAX_CLIENTS"
    and occ: "0 < client_socket s ! i"
    and ready: "client_socket s ! i \<in> readfds"
    and rcv: "recv_res e i = (n, buf)"
    and n: "n \<le> 0"
  shows "recv_slot e readfds i s =
           (s\<lparr>client_socket := (client_socket s)[i := 0]\<rparr>,
            [Recv (client_socket s ! i), Close (client_socket s ! i)], False)
       \<and> client_socket (fst (recv_slot e readfds i s)) ! i = 0
       \<and> (\<forall>j. j \<noteq> i \<longrightarrow> client_socket (fst (recv_slot e readfds i s)) ! j = client_socket s ! j)
       \<and> sends (fst (snd (recv_slot e readfds i s))) = []
       \<and> running (fst (recv_slot e readfds i s)) = running s"
proof -
  have eq: "recv_slot e readfds i s =
           (s\<lparr>client_socket := (client_socket s)[i := 0]\<rparr>,
            [Recv (client_socket s ! i), Close (client_socket s ! i)], False)"
    using occ ready rcv n by (simp add: recv_slot_def Let_def)
  show ?thesis unfolding eq using len i by simp
qed

text \<open>A hangs up while A and B are connected: A is closed, B stays.\<close>

theorem failed_receive_releases_only_that_slot_witness:
  "length (client_socket two_clients) = MAX_CLIENTS \<and> 0 < MAX_CLIENTS
   \<and> 0 < client_socket two_clients ! 0 \<and> client_socket two_clients ! 0 \<in> {4}
   \<and> recv_res A_hangs_up 0 = (0, [])
   \<and> recv_slot A_hangs_up {4} 0 two_clients =
       (two_clients\<lparr>client_socket := [0, 5, 0, 0, 0, 0, 0, 0, 0, 0]\<rparr>, [Recv 4, Close 4], False)"
proof -
  have len: "length (client_socket two_clients) = MAX_CLIENTS" by code_simp
  have i: "0 < MAX_CLIENTS" by code_simp
  have occ: "0 < client_socket two_clients ! 0" by code_simp
  have ready: "client_socket two_clients ! 0 \<in> {4}" by code_simp
  have rcv: "recv_res A_hangs_up 0 = (0, [])" by code_simp
  have n: "(0::int) \<le> 0" by simp
  have cs: "client_socket two_clients = [4, 5, 0, 0, 0, 0, 0, 0, 0, 0]" by code_simp
  show ?thesis
    using failed_receive_releases_only_that_slot [OF len i occ ready rcv n] len i occ ready rcv
    by (simp add: cs)
qed

subsection \<open>The acknowledgement\<close>

text \<open>
  C10. Slot \<open>i\<close> is occupied and ready and \<open>recv\<close> on it returns a positive length. Then the
  calls of the step are, in this order: the \<open>recv\<close>, one \<open>send\<close> of the three bytes \<open>ACK\<close>
  to the sender, and the calls of the broadcast. What that \<open>send\<close> returns has no influence
  on the step: its result is the same for every value \<open>r\<close> of it.
\<close>

theorem ack_precedes_broadcast:
  assumes occ: "0 < client_socket s ! i"
    and ready: "client_socket s ! i \<in> readfds"
    and rcv: "recv_res e i = (L, buf)"
    and pos: "0 < L"
  shows "fst (snd (recv_slot e readfds i s)) =
           Recv (client_socket s ! i) # Send (client_socket s ! i) ''ACK'' #
           snd (broadcast_message (send_res e i) (client_socket s ! i) (buf[nat L := NUL]) (nat L) s)
       \<and> (\<forall>r. recv_slot (e\<lparr>ack_res := r\<rparr>) readfds i s = recv_slot e readfds i s)"
proof -
  have "\<And>r. recv_slot (e\<lparr>ack_res := r\<rparr>) readfds i s = recv_slot e readfds i s"
    by (cases "recv_res e i") (simp add: recv_slot_def Let_def)
  then show ?thesis using recv_slot_positive [OF occ ready rcv pos] by simp
qed

text \<open>\<open>hello\<close> from A with A and B connected: A is acknowledged, then B is sent the message.\<close>

theorem ack_precedes_broadcast_witness:
  "0 < client_socket two_clients ! 0 \<and> client_socket two_clients ! 0 \<in> {4}
   \<and> recv_res hello_from_A 0 = (5, ''hello'')
   \<and> fst (snd (recv_slot hello_from_A {4} 0 two_clients)) =
       [Recv 4, Send 4 ''ACK'', Send 5 ''hello'']
   \<and> (\<forall>r. recv_slot (hello_from_A\<lparr>ack_res := r\<rparr>) {4} 0 two_clients =
            recv_slot hello_from_A {4} 0 two_clients)"
proof -
  have occ: "0 < client_socket two_clients ! 0" by code_simp
  have ready: "client_socket two_clients ! 0 \<in> {4}" by code_simp
  have rcv: "recv_res hello_from_A 0 = (5, ''hello'')" by code_simp
  have pos: "(0::int) < 5" by simp
  have b: "snd (broadcast_message (send_res hello_from_A 0) 4 ''hello'' 5 two_clients) =
             [Send 5 ''hello'']"
    by code_simp
  show ?thesis
    using ack_precedes_broadcast [OF occ ready rcv pos] occ ready rcv
    by (simp add: b)
qed

subsection \<open>The store of the terminating NUL\<close>

text \<open>
  C4. \<open>recv\<close> is given the whole buffer, so it may return \<open>BUF_SIZE\<close> = 256. The NUL is then
  stored at index 256 of an array whose last index is 255.
\<close>

theorem nul_store_after_full_buffer_is_out_of_bounds:
  "fst (recv_res full_buffer_from_A 0) = 256
   \<and> \<not> store_in_bounds (nat (fst (recv_res full_buffer_from_A 0)))
   \<and> snd (snd (recv_slot full_buffer_from_A {4} 0 two_clients))"
  by code_simp

text \<open>Every shorter message is stored within the array.\<close>

lemma nul_store_in_bounds_below_buffer_size:
  "0 < L \<Longrightarrow> store_in_bounds (nat L) \<longleftrightarrow> L < 256"
  by (auto simp: store_in_bounds_def BUF_SIZE_def)

subsection \<open>The control input\<close>

lemma of_char_zero_iff: "(of_char c :: nat) = 0 \<longleftrightarrow> c = NUL"
proof -
  have "(of_char c :: nat) = of_char NUL \<longleftrightarrow> c = NUL" by (rule of_char_eq_iff)
  then show ?thesis by (simp add: NUL_def)
qed

text \<open>On C strings, \<open>strncmp\<close> returns 0 exactly when the first \<open>n\<close> bytes agree.\<close>

lemma strncmp_eq_0_iff:
  "NUL \<notin> set s1 \<Longrightarrow> NUL \<notin> set s2 \<Longrightarrow> strncmp s1 s2 n = 0 \<longleftrightarrow> take n s1 = take n s2"
proof (induction s1 s2 n rule: strncmp.induct)
  case (1 s1 s2)
  then show ?case by simp
next
  case (2 n)
  then show ?case by simp
next
  case (3 c2 s2 n)
  then show ?case by (auto simp: of_char_zero_iff)
next
  case (4 c1 s1 n)
  then show ?case by (auto simp: of_char_zero_iff)
next
  case (5 c1 s1 c2 s2 n)
  then show ?case by auto
qed

lemma NUL_notin_cstr: "NUL \<notin> set (cstr buf)"
  unfolding cstr_def by (auto dest: set_takeWhileD)

lemma take4_cstr: "take 4 (cstr buf) = ''quit'' \<longleftrightarrow> take 4 buf = ''quit''"
proof
  assume a: "take 4 (cstr buf) = ''quit''"
  then have "length (take 4 (cstr buf)) = 4" by simp
  then have long: "4 \<le> length (cstr buf)" by simp
  have "take 4 buf = take 4 (cstr buf @ dropWhile (\<lambda>c. c \<noteq> NUL) buf)"
    unfolding cstr_def by simp
  also have "\<dots> = take 4 (cstr buf)"
    using long by (simp only: take_append) simp
  finally show "take 4 buf = ''quit''" using a by simp
next
  assume a: "take 4 buf = ''quit''"
  have "buf = take 4 buf @ drop 4 buf" by simp
  with a have "buf = ''quit'' @ drop 4 buf" by simp
  then have "cstr buf = cstr (''quit'' @ drop 4 buf)" by simp
  then show "take 4 (cstr buf) = ''quit''"
    by (simp add: cstr_def NUL_def)
qed

lemma quit_recognised_iff:
  "strncmp (cstr buf) ''quit'' 4 = 0 \<longleftrightarrow> take 4 buf = ''quit''"
proof -
  have "NUL \<notin> set ''quit''" by (simp add: NUL_def)
  then have "strncmp (cstr buf) ''quit'' 4 = 0 \<longleftrightarrow> take 4 (cstr buf) = take 4 ''quit''"
    using NUL_notin_cstr by (rule strncmp_eq_0_iff [rotated])
  then show ?thesis by (simp add: take4_cstr)
qed

text \<open>
  C9, as stated, fails: the operator types \<open>quitter\<close>. The line read is not the token
  \<open>quit\<close>, with or without its newline, and it is recognised as the shutdown command.
\<close>

theorem longer_word_starting_with_quit_is_recognised:
  "fgets 16 (stdin_pending quitter_typed) = Some (''quitter'' @ [CHR 0x0A])
   \<and> ''quitter'' @ [CHR 0x0A] \<noteq> ''quit'' @ [CHR 0x0A]
   \<and> ''quitter'' \<noteq> ''quit''
   \<and> check_stdin quitter_typed {0} two_clients = (two_clients, [Fgets, Log QuitReceived])"
  by code_simp

text \<open>
  C9, amended. Standard input is ready and \<open>fgets\<close> stores \<open>cmd_buffer\<close>, at most 15 bytes of
  the line. The command is recognised as the shutdown command if and only if its first four
  bytes are exactly \<open>quit\<close>, compared byte by byte and so case-sensitively; every other input
  is answered by the message that it is ignored. Neither case changes the state or raises an
  error.
\<close>

theorem command_recognised_iff_prefix_quit:
  assumes "STDIN_FILENO \<in> readfds"
    and "fgets 16 (stdin_pending e) = Some cmd_buffer"
  shows "check_stdin e readfds s =
           (s, [Fgets, Log (if take 4 cmd_buffer = ''quit'' then QuitReceived else CommandIgnored)])"
  using assms by (simp add: check_stdin_def quit_recognised_iff)

text \<open>The operator types \<open>quit\<close>, and then \<open>Quit\<close>.\<close>

theorem command_recognised_iff_prefix_quit_witness:
  "STDIN_FILENO \<in> {0} \<and> fgets 16 (stdin_pending quit_typed) = Some (''quit'' @ [CHR 0x0A])
   \<and> check_stdin quit_typed {0} two_clients = (two_clients, [Fgets, Log QuitReceived])
   \<and> fgets 16 (stdin_pending (quit_typed\<lparr>stdin_pending := ''Quit'' @ [CHR 0x0A]\<rparr>)) =
       Some (''Quit'' @ [CHR 0x0A])
   \<and> check_stdin (quit_typed\<lparr>stdin_pending := ''Quit'' @ [CHR 0x0A]\<rparr>) {0} two_clients =
       (two_clients, [Fgets, Log CommandIgnored])"
proof -
  have rd: "STDIN_FILENO \<in> {0}" by code_simp
  have fg: "fgets 16 (stdin_pending quit_typed) = Some (''quit'' @ [CHR 0x0A])" by code_simp
  have fg': "fgets 16 (stdin_pending (quit_typed\<lparr>stdin_pending := ''Quit'' @ [CHR 0x0A]\<rparr>)) =
       Some (''Quit'' @ [CHR 0x0A])" by code_simp
  show ?thesis
    using command_recognised_iff_prefix_quit [OF rd fg, of two_clients]
      command_recognised_iff_prefix_quit [OF rd fg', of two_clients] rd fg fg'
    by simp
qed

subsection \<open>The shutdown command\<close>

text \<open>
  C1. With clients A and B connected, the operator types \<open>quit\<close>. The iteration reads the line
  and prints the shutdown message, and that is all: no descriptor is closed, \<open>exit\<close> is not
  called, the state is unchanged with \<open>running\<close> still 1, and the loop is still running
  afterwards. \<open>cleanup_and_exit\<close>, which would close the listener and both clients and exit
  with code 0, is not called on this path.
\<close>

theorem quit_command_does_not_shut_down:
  "loop_body quit_typed two_clients = (two_clients, [Select, Fgets, Log QuitReceived], False)
   \<and> main_loop 1 (\<lambda>k. quit_typed) 0 two_clients = None
   \<and> snd (cleanup_and_exit two_clients) = [Close 3, Close 4, Close 5, Exit 0]"
  by code_simp

text \<open>
  No step of the loop body assigns \<open>running\<close>, so the loop of \<open>main\<close> never ends, whatever
  arrives on the control input or on the sockets.
\<close>

lemma running_bcast_loop:
  "running (fst (bcast_loop res sender_fd message len i s)) = running s"
proof (induction res sender_fd message len i s rule: bcast_loop.induct)
  case (1 res sender_fd message len i s)
  show ?case
  proof (cases "i < MAX_CLIENTS")
    case False
    then show ?thesis by (simp add: bcast_loop_done)
  next
    case lt: True
    show ?thesis
    proof (cases "client_socket s ! i \<le> 0")
      case True
      with lt "1.IH"(1) show ?thesis by (simp add: bcast_loop_free)
    next
      case pos: False
      show ?thesis
      proof (cases "client_socket s ! i = sender_fd")
        case True
        with lt pos "1.IH"(2) show ?thesis by (simp add: bcast_loop_self)
      next
        case other: False
        show ?thesis
        proof (cases "res i = - 1")
          case True
          with lt pos other show ?thesis by (simp add: bcast_loop_fail)
        next
          case False
          with lt pos other "1.IH"(3) show ?thesis by (simp add: bcast_loop_sent)
        qed
      qed
    qed
  qed
qed

lemma running_recv_slot: "running (fst (recv_slot e readfds i s)) = running s"
proof (cases "recv_res e i")
  case (Pair n buf)
  then show ?thesis
    using running_bcast_loop [of "send_res e i" "client_socket s ! i" "buf[nat n := NUL]" "nat n" 0 s]
    by (simp add: recv_slot_def Let_def broadcast_message_def case_prod_beta)
qed

lemma running_recv_loop: "running (fst (recv_loop e readfds i s)) = running s"
proof (induction e readfds i s rule: recv_loop.induct)
  case (1 e readfds i s)
  show ?case
  proof (cases "i < MAX_CLIENTS")
    case False
    then show ?thesis by (subst recv_loop.simps) simp
  next
    case True
    obtain s' ev oob where r: "recv_slot e readfds i s = (s', ev, oob)"
      by (cases "recv_slot e readfds i s") auto
    have "running s' = running s" using running_recv_slot [of e readfds i s] r by simp
    moreover have "running (fst (recv_loop e readfds (Suc i) s')) = running s'"
      using "1.IH" [OF True r [symmetric] refl] .
    ultimately show ?thesis
      using True r by (subst recv_loop.simps) (simp add: case_prod_beta)
  qed
qed

lemma running_assign_slot: "running (assign_slot afd i s) = running s"
proof (induction afd i s rule: assign_slot.induct)
  case (1 afd i s)
  show ?case
  proof (cases "i < MAX_CLIENTS \<and> client_socket s ! i \<noteq> 0")
    case True
    with "1.IH" show ?thesis by (subst assign_slot.simps) (simp add: Let_def)
  next
    case False
    then show ?thesis by (subst assign_slot.simps) (auto simp: Let_def)
  qed
qed

lemma running_check_listener: "running (fst (check_listener e readfds s)) = running s"
  by (simp add: check_listener_def Let_def running_assign_slot)

lemma running_check_stdin: "running (fst (check_stdin e readfds s)) = running s"
  by (simp add: check_stdin_def split: option.splits)

lemma running_loop_body: "running (fst (loop_body e s)) = running s"
proof -
  obtain readfds0 mx
    where p: "populate 0 (client_socket s) ({STDIN_FILENO, listener_sfd s}, max_fd s) = (readfds0, mx)"
    by (cases "populate 0 (client_socket s) ({STDIN_FILENO, listener_sfd s}, max_fd s)") auto
  define s1 where "s1 = s\<lparr>max_fd := mx\<rparr>"
  define readfds where "readfds = (if select_res e < 0 then readfds0 else select_ready e)"
  obtain s2 ev2 where c: "check_stdin e readfds s1 = (s2, ev2)"
    by (cases "check_stdin e readfds s1") auto
  obtain s3 ev3 skip where l: "check_listener e readfds s2 = (s3, ev3, skip)"
    by (cases "check_listener e readfds s2") auto
  obtain s4 ev4 oob where r: "recv_loop e readfds 0 s3 = (s4, ev4, oob)"
    by (cases "recv_loop e readfds 0 s3") auto
  have "running s1 = running s" by (simp add: s1_def)
  moreover have "running s2 = running s1" using running_check_stdin [of e readfds s1] c by simp
  moreover have "running s3 = running s2" using running_check_listener [of e readfds s2] l by simp
  moreover have "running s4 = running s3" using running_recv_loop [of e readfds 0 s3] r by simp
  ultimately show ?thesis
    using p c l r by (simp add: loop_body_def Let_def s1_def [symmetric] readfds_def [symmetric])
qed

lemma main_loop_never_ends: "running s \<noteq> 0 \<Longrightarrow> main_loop fuel envs k s = None"
proof (induction fuel arbitrary: k s)
  case 0
  then show ?case by simp
next
  case (Suc fuel)
  obtain s' ev oob where b: "loop_body (envs k) s = (s', ev, oob)"
    by (cases "loop_body (envs k) s") auto
  then have "running s' \<noteq> 0" using running_loop_body [of "envs k" s] Suc.prems by simp
  then have "main_loop fuel envs (Suc k) s' = None" by (rule Suc.IH)
  with b Suc.prems show ?case by simp
qed

lemma server_never_leaves_its_loop: "main_loop fuel envs 0 (init_server lfd) = None"
  by (rule main_loop_never_ends) (simp add: init_server_def)

subsection \<open>A connection accepted while the registry is full\<close>

text \<open>
  C3. All ten slots are occupied and an eleventh connection, descriptor 14, is accepted. The
  registry is left as it was and nothing is sent, but the new descriptor is not closed either:
  the only call of the iteration besides \<open>select\<close> is the \<open>accept\<close> itself.
\<close>

theorem connection_accepted_when_full_is_not_closed:
  "loop_body one_more_connection full_registry =
     (full_registry, [Select, Accept 3], False)
   \<and> Close 14 \<notin> set (fst (snd (loop_body one_more_connection full_registry)))
   \<and> 14 \<notin> set (client_socket (fst (loop_body one_more_connection full_registry)))"
  by code_simp

text \<open>
  The parts of the accept step that hold in general: with no slot holding 0 the registry is
  left unchanged, otherwise the descriptor goes into the first slot holding 0; the array
  keeps its length, so the number of occupied slots never exceeds the capacity.
\<close>

lemma assign_slot_full:
  "(\<And>j. i \<le> j \<Longrightarrow> j < MAX_CLIENTS \<Longrightarrow> client_socket s ! j \<noteq> 0) \<Longrightarrow> assign_slot afd i s = s"
proof (induction afd i s rule: assign_slot.induct)
  case (1 afd i s)
  show ?case
  proof (cases "i < MAX_CLIENTS")
    case False
    then show ?thesis by (subst assign_slot.simps) simp
  next
    case True
    then have "client_socket s ! i \<noteq> 0" using "1.prems" by simp
    moreover have "assign_slot afd (Suc i) s = s"
      using "1.IH" [OF True refl \<open>client_socket s ! i \<noteq> 0\<close>] "1.prems" by simp
    ultimately show ?thesis using True by (subst assign_slot.simps) (simp add: Let_def)
  qed
qed

lemma assign_slot_first_free:
  "i \<le> k \<Longrightarrow> k < MAX_CLIENTS \<Longrightarrow> k < length (client_socket s) \<Longrightarrow> client_socket s ! k = 0 \<Longrightarrow>
   (\<And>j. i \<le> j \<Longrightarrow> j < k \<Longrightarrow> client_socket s ! j \<noteq> 0) \<Longrightarrow>
   client_socket (assign_slot afd i s) = (client_socket s)[k := afd]"
proof (induction afd i s rule: assign_slot.induct)
  case (1 afd i s)
  show ?case
  proof (cases "i = k")
    case True
    with "1.prems" show ?thesis by (subst assign_slot.simps) (simp add: Let_def)
  next
    case False
    with "1.prems" have lt: "i < k" "i < MAX_CLIENTS" by simp_all
    then have nz: "client_socket s ! i \<noteq> 0" using "1.prems" by simp
    have "client_socket (assign_slot afd (Suc i) s) = (client_socket s)[k := afd]"
      using "1.IH" [OF lt(2) refl nz] "1.prems" lt by simp
    with lt nz show ?thesis by (subst assign_slot.simps) (simp add: Let_def)
  qed
qed

lemma length_assign_slot:
  "length (client_socket (assign_slot afd i s)) = length (client_socket s)"
proof (induction afd i s rule: assign_slot.induct)
  case (1 afd i s)
  show ?case
  proof (cases "i < MAX_CLIENTS \<and> client_socket s ! i \<noteq> 0")
    case True
    with "1.IH" show ?thesis by (subst assign_slot.simps) (simp add: Let_def)
  next
    case False
    then show ?thesis by (subst assign_slot.simps) (auto simp: Let_def)
  qed
qed

lemma occupied_count_le_capacity:
  "length (client_socket s) = MAX_CLIENTS \<Longrightarrow>
   occupied_count (assign_slot afd 0 s) \<le> MAX_CLIENTS"
proof -
  assume "length (client_socket s) = MAX_CLIENTS"
  then have "length (client_socket (assign_slot afd 0 s)) = MAX_CLIENTS"
    by (simp add: length_assign_slot)
  moreover have "occupied_count (assign_slot afd 0 s) \<le> length (client_socket (assign_slot afd 0 s))"
    unfolding occupied_count_def by (rule length_filter_le)
  ultimately show ?thesis by simp
qed

subsection \<open>An interrupted or failed select\<close>



text \<open>
  The branch of the loop body for the answer \<open>EINTR\<close> is not a retry: the test
  \<open>(activity < 0) && (errno != EINTR)\<close> lets it pass to the dispatch steps, with \<open>readfds\<close> as
  it was built. The process as written is never given this answer, since it installs no
  handler; the evaluation records what the body would do with it.
\<close>

lemma eintr_answer_would_dispatch:
  "loop_body select_interrupted two_clients =
     (two_clients, [Select, Fgets, Log CommandIgnored, Accept 3, Log AcceptError], False)"
  by code_simp

end
